theory Spec2Isabelle
  imports Main "HOL-Library.Sublist"
begin

section \<open>Strings: the parts of Go's \<open>strings\<close> package that \<open>ExecuteScript\<close> calls\<close>

text \<open>
  A Go string is a sequence of bytes; \<^typ>\<open>string\<close> is a list of 8-bit characters.

  \<open>strings.TrimSpace\<close> removes leading and trailing white space "as defined by Unicode":
  the runes for which \<open>unicode.IsSpace\<close> holds, decoded from the UTF-8 bytes of the
  string. Those runes are U+0009..U+000D, U+0020, U+0085, U+00A0, U+1680,
  U+2000..U+200A, U+2028, U+2029, U+202F, U+205F and U+3000. A rune decoded at the start
  (or at the end) of a string is one of them exactly when the string starts (or ends)
  with its UTF-8 encoding: the encodings are the shortest ones, which are the only
  ones Go's decoder accepts, a byte it rejects decodes to U+FFFD, which is not white
  space, and decoding backwards starts at the nearest byte that is not a continuation
  byte, which is the first byte of the encoding. \<open>whitespace\<close> lists these encodings;
  the first six are the table \<open>asciiSpace\<close> of the fast path.
\<close>

definition whitespace :: "string list" where
  "whitespace =
    [[CHR 0x09], [CHR 0x0A], [CHR 0x0B], [CHR 0x0C], [CHR 0x0D], [CHR 0x20],
     [CHR 0xC2, CHR 0x85], [CHR 0xC2, CHR 0xA0],
     [CHR 0xE1, CHR 0x9A, CHR 0x80],
     [CHR 0xE2, CHR 0x80, CHR 0x80], [CHR 0xE2, CHR 0x80, CHR 0x81],
     [CHR 0xE2, CHR 0x80, CHR 0x82], [CHR 0xE2, CHR 0x80, CHR 0x83],
     [CHR 0xE2, CHR 0x80, CHR 0x84], [CHR 0xE2, CHR 0x80, CHR 0x85],
     [CHR 0xE2, CHR 0x80, CHR 0x86], [CHR 0xE2, CHR 0x80, CHR 0x87],
     [CHR 0xE2, CHR 0x80, CHR 0x88], [CHR 0xE2, CHR 0x80, CHR 0x89],
     [CHR 0xE2, CHR 0x80, CHR 0x8A],
     [CHR 0xE2, CHR 0x80, CHR 0xA8], [CHR 0xE2, CHR 0x80, CHR 0xA9],
     [CHR 0xE2, CHR 0x80, CHR 0xAF],
     [CHR 0xE2, CHR 0x81, CHR 0x9F],
     [CHR 0xE3, CHR 0x80, CHR 0x80]]"

text \<open>The white-space character a string starts with, and the one it ends with.\<close>

definition leading_space :: "string \<Rightarrow> string option" where
  "leading_space s = find (\<lambda>w. prefix w s) whitespace"

definition trailing_space :: "string \<Rightarrow> string option" where
  "trailing_space s = find (\<lambda>w. suffix w s) whitespace"

text \<open>\<open>strings.TrimLeftFunc(s, unicode.IsSpace)\<close>: drop white-space runes from the start.\<close>

function TrimLeft :: "string \<Rightarrow> string" where
  "TrimLeft s =
     (case leading_space s of
        None \<Rightarrow> s
      | Some w \<Rightarrow> TrimLeft (drop (length w) s))"
  by pat_completeness auto
termination
proof (relation "measure length")
  show "wf (measure length)" by simp
next
  fix s w :: string
  assume "leading_space s = Some w"
  then have "w \<in> set whitespace" and "prefix w s"
    by (auto simp: leading_space_def find_Some_iff)
  then have "w \<noteq> []" by (auto simp: whitespace_def)
  with \<open>prefix w s\<close> have "s \<noteq> []" by auto
  with \<open>w \<noteq> []\<close> show "(drop (length w) s, s) \<in> measure length" by simp
qed

text \<open>\<open>strings.TrimRightFunc(s, unicode.IsSpace)\<close>: drop white-space runes from the end.\<close>

function TrimRight :: "string \<Rightarrow> string" where
  "TrimRight s =
     (case trailing_space s of
        None \<Rightarrow> s
      | Some w \<Rightarrow> TrimRight (take (length s - length w) s))"
  by pat_completeness auto
termination
proof (relation "measure length")
  show "wf (measure length)" by simp
next
  fix s w :: string
  assume "trailing_space s = Some w"
  then have "w \<in> set whitespace" and "suffix w s"
    by (auto simp: trailing_space_def find_Some_iff)
  then have "w \<noteq> []" by (auto simp: whitespace_def)
  with \<open>suffix w s\<close> have "s \<noteq> []" by auto
  with \<open>w \<noteq> []\<close> show "(take (length s - length w) s, s) \<in> measure length" by simp
qed

declare TrimLeft.simps [simp del] TrimRight.simps [simp del]

text \<open>\<open>strings.TrimSpace\<close>: white space is removed from the start, then from the end.\<close>

definition TrimSpace :: "string \<Rightarrow> string" where
  "TrimSpace s = TrimRight (TrimLeft s)"

text \<open>
  \<open>strings.Split(s, sep)\<close> for a separator of one byte, as \<open>ExecuteScript\<close> calls it
  (\<open>sep = ";"\<close>): while the separator occurs, cut the text before its first occurrence
  and go on after it; the rest is the last fragment.
\<close>

function Split :: "string \<Rightarrow> char \<Rightarrow> string list" where
  "Split s sep =
     (if sep \<in> set s
      then takeWhile (\<lambda>c. c \<noteq> sep) s # Split (tl (dropWhile (\<lambda>c. c \<noteq> sep) s)) sep
      else [s])"
  by pat_completeness auto
termination
proof (relation "measure (\<lambda>(s, sep). length s)")
  show "wf (measure (\<lambda>(s, sep). length s))" by simp
next
  fix s :: string and sep :: char
  assume "sep \<in> set s"
  then have "dropWhile (\<lambda>c. c \<noteq> sep) s \<noteq> []" by simp
  then have "length (tl (dropWhile (\<lambda>c. c \<noteq> sep) s)) < length (dropWhile (\<lambda>c. c \<noteq> sep) s)"
    by simp
  also have "\<dots> \<le> length s" by (rule length_dropWhile_le)
  finally show "((tl (dropWhile (\<lambda>c. c \<noteq> sep) s), sep), (s, sep)) \<in> measure (\<lambda>(s, sep). length s)"
    by simp
qed

declare Split.simps [simp del]

section \<open>Errors\<close>

text \<open>
  A Go \<open>error\<close> value, as far as this program looks at it: its message (\<open>err.Error()\<close>)
  and the error it wraps (\<open>errors.Unwrap(err)\<close>). \<open>fmt.Errorf\<close> with no \<open>%w\<close> verb
  builds an \<open>ErrorString\<close>; with one \<open>%w\<close> verb it builds a \<open>WrapError\<close> whose message
  is the formatted text and whose cause is the \<open>%w\<close> operand. The errors of the driver
  and of the operating system are values of the same type.
\<close>

datatype error = ErrorString string | WrapError string error

fun Error :: "error \<Rightarrow> string" where
  "Error (ErrorString msg) = msg"
| "Error (WrapError msg err) = msg"

fun Unwrap :: "error \<Rightarrow> error option" where
  "Unwrap (ErrorString msg) = None"
| "Unwrap (WrapError msg err) = Some err"

section \<open>The database handle\<close>

text \<open>
  \<open>*sql.DB\<close>: the three methods the program calls. Each acts on the world outside the
  program (the database and the connection), of an arbitrary type \<open>'w\<close>, and returns
  \<open>None\<close> for a nil error. \<open>sql.Open\<close> is a parameter of \<open>Connect\<close> of type
  \<open>string \<Rightarrow> string \<Rightarrow> 'w \<Rightarrow> (error + 'w DB) \<times> 'w\<close>.
\<close>

record 'w DB =
  Ping :: "'w \<Rightarrow> error option \<times> 'w"
  Close :: "'w \<Rightarrow> error option \<times> 'w"
  Exec :: "string \<Rightarrow> 'w \<Rightarrow> error option \<times> 'w"

section \<open>internal/database/database.go\<close>

definition Connect ::
  "(string \<Rightarrow> string \<Rightarrow> 'w \<Rightarrow> (error + 'w DB) \<times> 'w) \<Rightarrow> string \<Rightarrow> string \<Rightarrow> 'w
     \<Rightarrow> ('w DB option \<times> error option) \<times> 'w" where
  "Connect sql_Open driver dsn w =
     (if dsn = [] then ((None, Some (ErrorString ''DSN cannot be empty'')), w)
      else
        (case sql_Open driver dsn w of
           (Inl err, w1) \<Rightarrow>
             ((None, Some (WrapError (''failed to open database: '' @ Error err) err)), w1)
         | (Inr db, w1) \<Rightarrow>
             (case Ping db w1 of
                (Some err, w2) \<Rightarrow>
                  (case Close db w2 of
                     (Some closeErr, w3) \<Rightarrow>
                       ((None, Some (WrapError
                           (''failed to ping database: '' @ Error err @
                            '' (close error: '' @ Error closeErr @ '')'') err)), w3)
                   | (None, w3) \<Rightarrow>
                       ((None, Some (WrapError (''failed to ping database: '' @ Error err) err)),
                        w3))
              | (None, w2) \<Rightarrow> ((Some db, None), w2))))"

text \<open>The \<open>for _, stmt := range statements\<close> loop of \<open>ExecuteScript\<close>.\<close>

fun ExecuteScript_loop :: "'w DB \<Rightarrow> string list \<Rightarrow> 'w \<Rightarrow> error option \<times> 'w" where
  "ExecuteScript_loop db [] w = (None, w)"
| "ExecuteScript_loop db (stmt # statements) w =
     (let stmt = TrimSpace stmt in
      if stmt = [] then ExecuteScript_loop db statements w
      else
        (case Exec db stmt w of
           (Some err, w') \<Rightarrow>
             (Some (WrapError (''failed to execute statement: '' @ Error err) err), w')
         | (None, w') \<Rightarrow> ExecuteScript_loop db statements w'))"

definition ExecuteScript :: "'w DB \<Rightarrow> string \<Rightarrow> 'w \<Rightarrow> error option \<times> 'w" where
  "ExecuteScript db script w =
     (let script = TrimSpace script in
      if script = [] then (None, w)
      else ExecuteScript_loop db (Split script CHR '';'') w)"

section \<open>internal/loader/loader.go\<close>

text \<open>
  \<open>os.ReadFile\<close> is the parameter \<open>ReadFile\<close>: the bytes of the file at a path, or the
  error of the operating system. \<open>string(content)\<close> keeps the bytes as they are.
\<close>

definition LoadScript :: "(string \<Rightarrow> error + string) \<Rightarrow> string \<Rightarrow> string \<times> error option" where
  "LoadScript ReadFile path =
     (if path = [] then ([], Some (ErrorString ''script path cannot be empty''))
      else
        (case ReadFile path of
           Inl err \<Rightarrow> ([], Some (WrapError (''failed to read script file: '' @ Error err) err))
         | Inr content \<Rightarrow> (content, None)))"

section \<open>Observing the calls the program makes\<close>

text \<open>
  To speak about which calls reach the driver, and in which order, a handle is wrapped
  so that every call is appended to a log kept beside the world. The wrapped handle
  behaves as the handle it wraps.
\<close>

datatype call = OpenCall string string | PingCall | CloseCall | ExecCall string

definition log_call :: "call \<Rightarrow> ('w \<Rightarrow> 'a \<times> 'w) \<Rightarrow> 'w \<times> call list \<Rightarrow> 'a \<times> ('w \<times> call list)" where
  "log_call c f = (\<lambda>(w, l). case f w of (r, w') \<Rightarrow> (r, (w', l @ [c])))"

definition logged :: "'w DB \<Rightarrow> ('w \<times> call list) DB" where
  "logged db =
     \<lparr>Ping = log_call PingCall (Ping db),
      Close = log_call CloseCall (Close db),
      Exec = (\<lambda>stmt. log_call (ExecCall stmt) (Exec db stmt))\<rparr>"

definition logged_Open ::
  "(string \<Rightarrow> string \<Rightarrow> 'w \<Rightarrow> (error + 'w DB) \<times> 'w)
     \<Rightarrow> string \<Rightarrow> string \<Rightarrow> 'w \<times> call list \<Rightarrow> (error + ('w \<times> call list) DB) \<times> ('w \<times> call list)" where
  "logged_Open sql_Open driver dsn =
     log_call (OpenCall driver dsn) (\<lambda>w. case sql_Open driver dsn w of (r, w') \<Rightarrow> (map_sum id logged r, w'))"

section \<open>The specification's vocabulary\<close>

text \<open>
  The statements of a script in the words of the specification: the script split on
  every \<open>;\<close>, each fragment trimmed, the fragments that are empty after trimming removed.
\<close>

definition statements :: "string \<Rightarrow> string list" where
  "statements script =
     filter (\<lambda>stmt. stmt \<noteq> []) (map TrimSpace (Split script CHR '';''))"

text \<open>The world after the statements were applied one after the other.\<close>

fun apply_statements :: "'w DB \<Rightarrow> string list \<Rightarrow> 'w \<Rightarrow> 'w" where
  "apply_statements db [] w = w"
| "apply_statements db (stmt # stmts) w = apply_statements db stmts (snd (Exec db stmt w))"

text \<open>Every statement succeeds, each run in the world its predecessors left.\<close>

fun all_succeed :: "'w DB \<Rightarrow> string list \<Rightarrow> 'w \<Rightarrow> bool" where
  "all_succeed db [] w = True"
| "all_succeed db (stmt # stmts) w =
     (fst (Exec db stmt w) = None \<and> all_succeed db stmts (snd (Exec db stmt w)))"

text \<open>
  Statements run one after the other until the first one fails; the failure is reported
  as \<open>ExecuteScript\<close> reports it.
\<close>

fun run_statements :: "'w DB \<Rightarrow> string list \<Rightarrow> 'w \<Rightarrow> error option \<times> 'w" where
  "run_statements db [] w = (None, w)"
| "run_statements db (stmt # stmts) w =
     (case Exec db stmt w of
        (Some err, w') \<Rightarrow>
          (Some (WrapError (''failed to execute statement: '' @ Error err) err), w')
      | (None, w') \<Rightarrow> run_statements db stmts w')"

text \<open>A string that starts or ends with a white-space character.\<close>

definition has_leading_space :: "string \<Rightarrow> bool" where
  "has_leading_space s = list_ex (\<lambda>w. prefix w s) whitespace"

definition has_trailing_space :: "string \<Rightarrow> bool" where
  "has_trailing_space s = list_ex (\<lambda>w. suffix w s) whitespace"

section \<open>Sample drivers\<close>

text \<open>
  A database that keeps the list of the statements applied to it and rejects the
  statement \<open>bad\<close>; a database that rejects \<open>bad\<close> too, after it has written one
  row of it; a database that cannot be reached and whose handle fails to close; and an
  \<open>sql.Open\<close> that knows them by name.
\<close>

definition sample_db :: "string list DB" where
  "sample_db =
     \<lparr>Ping = (\<lambda>w. (None, w)),
      Close = (\<lambda>w. (None, w)),
      Exec = (\<lambda>stmt w. if stmt = ''bad'' then (Some (ErrorString ''syntax error''), w)
                        else (None, w @ [stmt]))\<rparr>"


definition stuck_db :: "string list DB" where
  "stuck_db =
     \<lparr>Ping = (\<lambda>w. (Some (ErrorString ''connection refused''), w)),
      Close = (\<lambda>w. (Some (ErrorString ''close failed''), w)),
      Exec = (\<lambda>stmt w. (Some (ErrorString ''connection refused''), w))\<rparr>"

definition sample_Open :: "string \<Rightarrow> string \<Rightarrow> string list \<Rightarrow> (error + string list DB) \<times> string list" where
  "sample_Open driver dsn w =
     (if driver = ''sqlite'' then (Inr sample_db, w)
      else if driver = ''stuck'' then (Inr stuck_db, w)
      else (Inl (ErrorString ''unknown driver''), w))"

text \<open>A file system with one file.\<close>

definition sample_ReadFile :: "string \<Rightarrow> error + string" where
  "sample_ReadFile path =
     (if path = ''valid.sql'' then Inr ''  SELECT 1;  ''
      else Inl (ErrorString ''no such file or directory''))"

section \<open>Properties of trimming\<close>

lemma whitespace_nonempty: "w \<in> set whitespace \<Longrightarrow> w \<noteq> []"
  by (auto simp: whitespace_def)

lemma whitespace_no_semicolon: "w \<in> set whitespace \<Longrightarrow> CHR '';'' \<notin> set w"
  by (auto simp: whitespace_def)

lemma whitespace_prefix_free:
  "w \<in> set whitespace \<Longrightarrow> w' \<in> set whitespace \<Longrightarrow> prefix w w' \<Longrightarrow> w = w'"
proof -
  have "\<forall>w\<in>set whitespace. \<forall>w'\<in>set whitespace. prefix w w' \<longrightarrow> w = w'"
    by (simp add: whitespace_def)
  then show "w \<in> set whitespace \<Longrightarrow> w' \<in> set whitespace \<Longrightarrow> prefix w w' \<Longrightarrow> w = w'"
    by blast
qed

lemma whitespace_head_tail:
  "w \<in> set whitespace \<Longrightarrow> w' \<in> set whitespace \<Longrightarrow> hd w' \<notin> set (tl w)"
proof -
  have "\<forall>w\<in>set whitespace. \<forall>w'\<in>set whitespace. hd w' \<notin> set (tl w)"
    by (simp add: whitespace_def)
  then show "w \<in> set whitespace \<Longrightarrow> w' \<in> set whitespace \<Longrightarrow> hd w' \<notin> set (tl w)"
    by blast
qed

lemma whitespace_suffix_free:
  assumes "w \<in> set whitespace" "w' \<in> set whitespace" "suffix w w'"
  shows "w = w'"
proof (rule ccontr)
  assume "w \<noteq> w'"
  from assms(3) obtain zs where zs: "w' = zs @ w" by (auto simp: suffix_def)
  with \<open>w \<noteq> w'\<close> have "zs \<noteq> []" by auto
  then obtain z zs' where "zs = z # zs'" by (cases zs) auto
  with zs have "tl w' = zs' @ w" by simp
  moreover have "hd w \<in> set w" using whitespace_nonempty[OF assms(1)] by simp
  ultimately have "hd w \<in> set (tl w')" by simp
  with whitespace_head_tail[OF assms(2) assms(1)] show False by simp
qed

lemma leading_space_None: "leading_space s = None \<longleftrightarrow> (\<forall>w\<in>set whitespace. \<not> prefix w s)"
  by (auto simp: leading_space_def find_None_iff)

lemma leading_space_Some: "leading_space s = Some w \<Longrightarrow> w \<in> set whitespace \<and> prefix w s"
  by (auto simp: leading_space_def find_Some_iff)

lemma leading_space_append:
  assumes "w \<in> set whitespace"
  shows "leading_space (w @ s) = Some w"
proof (cases "leading_space (w @ s)")
  case None
  with assms show ?thesis by (auto simp: leading_space_None)
next
  case (Some w')
  then have w': "w' \<in> set whitespace" "prefix w' (w @ s)"
    by (auto dest: leading_space_Some)
  have "prefix w (w @ s)" by simp
  with w'(2) have "prefix w w' \<or> prefix w' w" by (metis prefix_same_cases)
  with assms w'(1) have "w' = w" by (auto dest: whitespace_prefix_free)
  with Some show ?thesis by simp
qed

lemma trailing_space_None: "trailing_space s = None \<longleftrightarrow> (\<forall>w\<in>set whitespace. \<not> suffix w s)"
  by (auto simp: trailing_space_def find_None_iff)

lemma trailing_space_Some: "trailing_space s = Some w \<Longrightarrow> w \<in> set whitespace \<and> suffix w s"
  by (auto simp: trailing_space_def find_Some_iff)

lemma trailing_space_append:
  assumes "w \<in> set whitespace"
  shows "trailing_space (s @ w) = Some w"
proof (cases "trailing_space (s @ w)")
  case None
  moreover have "suffix w (s @ w)" by (simp add: suffix_def)
  ultimately show ?thesis using assms by (auto simp: trailing_space_None)
next
  case (Some w')
  then have w': "w' \<in> set whitespace" "suffix w' (s @ w)"
    by (auto dest: trailing_space_Some)
  have "suffix w (s @ w)" by (simp add: suffix_def)
  with w'(2) have "suffix w w' \<or> suffix w' w" by (metis suffix_same_cases)
  with assms w'(1) have "w' = w" by (auto dest: whitespace_suffix_free)
  with Some show ?thesis by simp
qed

lemma TrimLeft_None: "leading_space s = None \<Longrightarrow> TrimLeft s = s"
  by (subst TrimLeft.simps) simp

lemma TrimLeft_Some: "leading_space s = Some w \<Longrightarrow> TrimLeft s = TrimLeft (drop (length w) s)"
  by (subst TrimLeft.simps) simp

lemma TrimLeft_append: "w \<in> set whitespace \<Longrightarrow> TrimLeft (w @ s) = TrimLeft s"
  using TrimLeft_Some[OF leading_space_append, of w s] by simp

lemma TrimLeft_concat: "set xs \<subseteq> set whitespace \<Longrightarrow> TrimLeft (concat xs @ s) = TrimLeft s"
  by (induction xs) (simp_all add: TrimLeft_append)

lemma TrimLeft_decomp: "\<exists>xs. set xs \<subseteq> set whitespace \<and> s = concat xs @ TrimLeft s"
proof (induction s rule: TrimLeft.induct)
  case (1 s)
  show ?case
  proof (cases "leading_space s")
    case None
    then have "set [] \<subseteq> set whitespace \<and> s = concat [] @ TrimLeft s"
      by (simp add: TrimLeft_None)
    then show ?thesis by blast
  next
    case (Some w)
    then have w: "w \<in> set whitespace" "prefix w s" "w \<noteq> []"
      by (auto dest: leading_space_Some whitespace_nonempty)
    from "1.IH"[OF Some] obtain xs where
      xs: "set xs \<subseteq> set whitespace" "drop (length w) s = concat xs @ TrimLeft (drop (length w) s)"
      by blast
    from w(2) have "s = w @ drop (length w) s" by (auto simp: prefix_def)
    with xs(2) have "s = concat (w # xs) @ TrimLeft s"
      by (simp add: TrimLeft_Some[OF Some])
    with xs(1) w(1) have "set (w # xs) \<subseteq> set whitespace \<and> s = concat (w # xs) @ TrimLeft s"
      by simp
    then show ?thesis by blast
  qed
qed

lemma leading_space_TrimLeft: "leading_space (TrimLeft s) = None"
proof (induction s rule: TrimLeft.induct)
  case (1 s)
  show ?case
  proof (cases "leading_space s")
    case None
    then show ?thesis by (simp add: TrimLeft_None)
  next
    case (Some w)
    from "1.IH"[OF Some] show ?thesis by (simp add: TrimLeft_Some[OF Some])
  qed
qed

lemma TrimRight_None: "trailing_space s = None \<Longrightarrow> TrimRight s = s"
  by (subst TrimRight.simps) simp

lemma TrimRight_Some:
  "trailing_space s = Some w \<Longrightarrow> TrimRight s = TrimRight (take (length s - length w) s)"
  by (subst TrimRight.simps) simp

lemma TrimRight_append: "w \<in> set whitespace \<Longrightarrow> TrimRight (s @ w) = TrimRight s"
  using TrimRight_Some[OF trailing_space_append, of w s] by simp

lemma TrimRight_concat: "set xs \<subseteq> set whitespace \<Longrightarrow> TrimRight (s @ concat xs) = TrimRight s"
proof (induction xs arbitrary: s)
  case Nil
  then show ?case by simp
next
  case (Cons x xs)
  from Cons.prems have "set xs \<subseteq> set whitespace" and x: "x \<in> set whitespace" by auto
  from Cons.IH[OF this(1), of "s @ x"] have "TrimRight (s @ concat (x # xs)) = TrimRight (s @ x)"
    by simp
  with x show ?case by (simp only: TrimRight_append)
qed

lemma TrimRight_decomp: "\<exists>xs. set xs \<subseteq> set whitespace \<and> s = TrimRight s @ concat xs"
proof (induction s rule: TrimRight.induct)
  case (1 s)
  show ?case
  proof (cases "trailing_space s")
    case None
    then have "set [] \<subseteq> set whitespace \<and> s = TrimRight s @ concat []"
      by (simp add: TrimRight_None)
    then show ?thesis by blast
  next
    case (Some w)
    then have w: "w \<in> set whitespace" "suffix w s" "w \<noteq> []"
      by (auto dest: trailing_space_Some whitespace_nonempty)
    let ?t = "take (length s - length w) s"
    from "1.IH"[OF Some] obtain xs where
      xs: "set xs \<subseteq> set whitespace" "?t = TrimRight ?t @ concat xs"
      by blast
    from w(2) have s: "s = ?t @ w" by (auto simp: suffix_def)
    have "TrimRight s @ concat (xs @ [w]) = (TrimRight ?t @ concat xs) @ w"
      by (simp add: TrimRight_Some[OF Some])
    also have "\<dots> = ?t @ w" using xs(2) by simp
    finally have "s = TrimRight s @ concat (xs @ [w])" using s by simp
    with xs(1) w(1) have "set (xs @ [w]) \<subseteq> set whitespace \<and> s = TrimRight s @ concat (xs @ [w])"
      by simp
    then show ?thesis by blast
  qed
qed

lemma trailing_space_TrimRight: "trailing_space (TrimRight s) = None"
proof (induction s rule: TrimRight.induct)
  case (1 s)
  show ?case
  proof (cases "trailing_space s")
    case None
    then show ?thesis by (simp add: TrimRight_None)
  next
    case (Some w)
    from "1.IH"[OF Some] show ?thesis by (simp add: TrimRight_Some[OF Some])
  qed
qed

section \<open>Properties of splitting\<close>

lemma leading_space_append_right:
  assumes none: "leading_space g = None" and g: "g \<noteq> []" and xs: "set xs \<subseteq> set whitespace"
  shows "leading_space (g @ concat xs) = None"
proof (rule ccontr)
  assume "leading_space (g @ concat xs) \<noteq> None"
  then obtain w where w: "w \<in> set whitespace" "prefix w (g @ concat xs)"
    by (auto simp: leading_space_None)
  from none w(1) have ng: "\<not> prefix w g" by (simp add: leading_space_None)
  with w(2) obtain us where us: "w = g @ us" "prefix us (concat xs)"
    by (auto simp: prefix_append)
  with ng have "us \<noteq> []" by auto
  with us(2) have cne: "concat xs \<noteq> []" by (metis prefix_Nil)
  then obtain x xs' where x: "xs = x # xs'" by (cases xs) auto
  with xs have xw: "x \<in> set whitespace" by simp
  then have "x \<noteq> []" by (rule whitespace_nonempty)
  with x have "hd (concat xs) = hd x" by simp
  moreover from us(2) \<open>us \<noteq> []\<close> have "hd us = hd (concat xs)"
    by (auto simp: prefix_def)
  moreover from g us(1) \<open>us \<noteq> []\<close> have "hd us \<in> set (tl w)"
    by (cases g) auto
  ultimately have "hd x \<in> set (tl w)" by simp
  with whitespace_head_tail[OF w(1) xw] show False by simp
qed

lemma TrimSpace_concat: "set xs \<subseteq> set whitespace \<Longrightarrow> TrimSpace (concat xs) = []"
proof -
  assume "set xs \<subseteq> set whitespace"
  then have "TrimLeft (concat xs @ []) = TrimLeft []" by (rule TrimLeft_concat)
  moreover have "leading_space [] = None"
    by (auto simp: leading_space_None dest: whitespace_nonempty)
  moreover have "trailing_space [] = None"
    by (auto simp: trailing_space_None dest: whitespace_nonempty)
  ultimately show ?thesis by (simp add: TrimSpace_def TrimLeft_None TrimRight_None)
qed

lemma TrimSpace_append_left:
  "set xs \<subseteq> set whitespace \<Longrightarrow> TrimSpace (concat xs @ s) = TrimSpace s"
  by (simp add: TrimSpace_def TrimLeft_concat)

lemma TrimSpace_append_right:
  assumes xs: "set xs \<subseteq> set whitespace"
  shows "TrimSpace (s @ concat xs) = TrimSpace s"
proof -
  obtain ps where ps: "set ps \<subseteq> set whitespace" "s = concat ps @ TrimLeft s"
    using TrimLeft_decomp by blast
  show ?thesis
  proof (cases "TrimLeft s = []")
    case True
    with ps(2) have "s @ concat xs = concat (ps @ xs)" by simp
    moreover from True ps(2) have "s = concat ps" by simp
    ultimately show ?thesis
      using TrimSpace_concat[of "ps @ xs"] TrimSpace_concat[of ps] ps(1) xs by simp
  next
    case False
    have "TrimLeft (s @ concat xs) = TrimLeft (concat ps @ (TrimLeft s @ concat xs))"
      using ps(2) by (metis append_assoc)
    also have "\<dots> = TrimLeft (TrimLeft s @ concat xs)"
      using ps(1) by (rule TrimLeft_concat)
    also have "\<dots> = TrimLeft s @ concat xs"
      using leading_space_append_right[OF leading_space_TrimLeft False xs]
      by (rule TrimLeft_None)
    finally show ?thesis
      using xs by (simp add: TrimSpace_def TrimRight_concat)
  qed
qed

lemma TrimSpace_decomp:
  "\<exists>ps qs. set ps \<subseteq> set whitespace \<and> set qs \<subseteq> set whitespace \<and>
           s = concat ps @ TrimSpace s @ concat qs"
proof -
  obtain ps where ps: "set ps \<subseteq> set whitespace" "s = concat ps @ TrimLeft s"
    using TrimLeft_decomp by blast
  obtain qs where qs: "set qs \<subseteq> set whitespace" "TrimLeft s = TrimRight (TrimLeft s) @ concat qs"
    using TrimRight_decomp by blast
  from ps(2) qs(2) have "s = concat ps @ TrimSpace s @ concat qs"
    by (simp add: TrimSpace_def)
  with ps(1) qs(1) show ?thesis by blast
qed

lemma Split_Nil: "Split [] sep = [[]]"
  by (subst Split.simps) simp

lemma Split_Cons:
  "Split (c # cs) sep =
     (if c = sep then [] # Split cs sep
      else (c # hd (Split cs sep)) # tl (Split cs sep))"
proof (cases "c = sep")
  case True
  then show ?thesis by (subst Split.simps) simp
next
  case False
  show ?thesis
  proof (cases "sep \<in> set cs")
    case True
    with False have "Split (c # cs) sep =
        (c # takeWhile (\<lambda>c. c \<noteq> sep) cs) # Split (tl (dropWhile (\<lambda>c. c \<noteq> sep) cs)) sep"
      by (subst Split.simps) simp
    moreover from True have "Split cs sep =
        takeWhile (\<lambda>c. c \<noteq> sep) cs # Split (tl (dropWhile (\<lambda>c. c \<noteq> sep) cs)) sep"
      by (subst Split.simps) simp
    ultimately show ?thesis using False by simp
  next
    case nin: False
    with False have "Split (c # cs) sep = [c # cs]" by (subst Split.simps) simp
    moreover from nin have "Split cs sep = [cs]" by (subst Split.simps) simp
    ultimately show ?thesis using False by simp
  qed
qed

lemma Split_not_Nil: "Split s sep \<noteq> []"
  by (cases s) (simp_all add: Split_Nil Split_Cons)

lemma Split_no_sep: "sep \<notin> set s \<Longrightarrow> Split s sep = [s]"
  by (subst Split.simps) simp

lemma Split_fragment_no_sep: "f \<in> set (Split s sep) \<Longrightarrow> sep \<notin> set f"
proof (induction s arbitrary: f)
  case Nil
  then show ?case by (simp add: Split_Nil)
next
  case (Cons c cs)
  have ne: "Split cs sep \<noteq> []" by (rule Split_not_Nil)
  show ?case
  proof (cases "c = sep")
    case True
    with Cons show ?thesis by (auto simp: Split_Cons)
  next
    case False
    with Cons.prems have "f = c # hd (Split cs sep) \<or> f \<in> set (tl (Split cs sep))"
      by (simp add: Split_Cons)
    then show ?thesis
    proof
      assume "f = c # hd (Split cs sep)"
      moreover from ne have "hd (Split cs sep) \<in> set (Split cs sep)" by simp
      ultimately show ?thesis using Cons.IH False by auto
    next
      assume "f \<in> set (tl (Split cs sep))"
      with ne have "f \<in> set (Split cs sep)" by (auto dest: list.set_sel(2))
      then show ?thesis by (rule Cons.IH)
    qed
  qed
qed

lemma Split_append_left:
  "sep \<notin> set p \<Longrightarrow> Split (p @ s) sep = (p @ hd (Split s sep)) # tl (Split s sep)"
  by (induction p) (auto simp: Split_Cons Split_not_Nil)

lemma Split_append_right:
  "sep \<notin> set q \<Longrightarrow> Split (s @ q) sep = butlast (Split s sep) @ [last (Split s sep) @ q]"
proof (induction s)
  case Nil
  then show ?case by (simp add: Split_Nil Split_no_sep)
next
  case (Cons c cs)
  have ne: "Split cs sep \<noteq> []" by (rule Split_not_Nil)
  show ?case
  proof (cases "c = sep")
    case True
    with Cons ne show ?thesis by (simp add: Split_Cons)
  next
    case False
    from ne obtain f fs where sp: "Split cs sep = f # fs"
      by (cases "Split cs sep") auto
    with Cons have "Split (cs @ q) sep = butlast (f # fs) @ [last (f # fs) @ q]"
      by simp
    with False sp show ?thesis
      by (cases fs) (simp_all add: Split_Cons)
  qed
qed

lemma map_TrimSpace_Split_left:
  assumes "set xs \<subseteq> set whitespace"
  shows "map TrimSpace (Split (concat xs @ s) CHR '';'') = map TrimSpace (Split s CHR '';'')"
proof -
  from assms have "CHR '';'' \<notin> set (concat xs)"
    by (auto dest: whitespace_no_semicolon)
  then have "map TrimSpace (Split (concat xs @ s) CHR '';'') =
      TrimSpace (concat xs @ hd (Split s CHR '';'')) # map TrimSpace (tl (Split s CHR '';''))"
    by (simp add: Split_append_left)
  also have "\<dots> = map TrimSpace (hd (Split s CHR '';'') # tl (Split s CHR '';''))"
    using assms by (simp add: TrimSpace_append_left)
  finally show ?thesis by (simp add: Split_not_Nil)
qed

lemma map_TrimSpace_Split_right:
  assumes "set xs \<subseteq> set whitespace"
  shows "map TrimSpace (Split (s @ concat xs) CHR '';'') = map TrimSpace (Split s CHR '';'')"
proof -
  from assms have "CHR '';'' \<notin> set (concat xs)"
    by (auto dest: whitespace_no_semicolon)
  then have "map TrimSpace (Split (s @ concat xs) CHR '';'') =
      map TrimSpace (butlast (Split s CHR '';'')) @ [TrimSpace (last (Split s CHR '';'') @ concat xs)]"
    by (simp add: Split_append_right)
  also have "\<dots> = map TrimSpace (butlast (Split s CHR '';'') @ [last (Split s CHR '';'')])"
    using assms by (simp add: TrimSpace_append_right)
  finally show ?thesis by (simp add: Split_not_Nil)
qed

lemma map_TrimSpace_Split_TrimSpace:
  "map TrimSpace (Split (TrimSpace s) CHR '';'') = map TrimSpace (Split s CHR '';'')"
proof -
  obtain ps qs where pq: "set ps \<subseteq> set whitespace" "set qs \<subseteq> set whitespace"
      "s = concat ps @ TrimSpace s @ concat qs"
    using TrimSpace_decomp by blast
  have "map TrimSpace (Split (concat ps @ TrimSpace s @ concat qs) CHR '';'') =
      map TrimSpace (Split (TrimSpace s @ concat qs) CHR '';'')"
    using pq(1) by (rule map_TrimSpace_Split_left)
  also have "\<dots> = map TrimSpace (Split (TrimSpace s) CHR '';'')"
    using pq(2) by (rule map_TrimSpace_Split_right)
  finally show ?thesis using pq(3) by simp
qed

lemma statements_TrimSpace: "statements (TrimSpace script) = statements script"
  by (simp add: statements_def map_TrimSpace_Split_TrimSpace)

section \<open>Properties of the executor\<close>

lemma ExecuteScript_loop_run:
  "ExecuteScript_loop db frags w =
     run_statements db (filter (\<lambda>stmt. stmt \<noteq> []) (map TrimSpace frags)) w"
  by (induction frags arbitrary: w) (auto simp: Let_def split: prod.splits option.splits)

lemma statements_Nil: "statements [] = []"
  using TrimSpace_concat[of "[]"] by (simp add: statements_def Split_Nil)

lemma ExecuteScript_run: "ExecuteScript db script w = run_statements db (statements script) w"
proof (cases "TrimSpace script = []")
  case True
  then have "statements (TrimSpace script) = []" by (simp add: statements_Nil)
  then have "statements script = []" by (simp add: statements_TrimSpace)
  with True show ?thesis by (simp add: ExecuteScript_def)
next
  case False
  then have "ExecuteScript db script w = run_statements db (statements (TrimSpace script)) w"
    by (simp add: ExecuteScript_def ExecuteScript_loop_run statements_def)
  then show ?thesis by (simp add: statements_TrimSpace)
qed

lemma run_statements_all_succeed:
  "all_succeed db stmts w \<Longrightarrow> run_statements db stmts w = (None, apply_statements db stmts w)"
  by (induction stmts arbitrary: w) (auto split: prod.splits option.splits)

lemma run_statements_fails:
  "k < length stmts \<Longrightarrow> all_succeed db (take k stmts) w \<Longrightarrow>
   Exec db (stmts ! k) (apply_statements db (take k stmts) w) = (Some err, w') \<Longrightarrow>
   run_statements db stmts w =
     (Some (WrapError (''failed to execute statement: '' @ Error err) err), w')"
proof (induction stmts arbitrary: w k)
  case Nil
  then show ?case by simp
next
  case (Cons stmt stmts)
  show ?case
  proof (cases k)
    case 0
    with Cons.prems show ?thesis by simp
  next
    case (Suc j)
    with Cons.prems have ok: "fst (Exec db stmt w) = None"
      and rest: "j < length stmts" "all_succeed db (take j stmts) (snd (Exec db stmt w))"
        "Exec db (stmts ! j) (apply_statements db (take j stmts) (snd (Exec db stmt w))) = (Some err, w')"
      by simp_all
    from Cons.IH[OF rest] ok show ?thesis
      by (cases "Exec db stmt w") simp
  qed
qed

lemma Exec_logged:
  "Exec (logged db) stmt (w, l) =
     (fst (Exec db stmt w), (snd (Exec db stmt w), l @ [ExecCall stmt]))"
  by (simp add: logged_def log_call_def split: prod.splits)

lemma all_succeed_logged: "all_succeed (logged db) stmts (w, l) = all_succeed db stmts w"
  by (induction stmts arbitrary: w l) (simp_all add: Exec_logged)

lemma apply_statements_logged:
  "apply_statements (logged db) stmts (w, l) =
     (apply_statements db stmts w, l @ map ExecCall stmts)"
  by (induction stmts arbitrary: w l) (simp_all add: Exec_logged)

lemma run_statements_logged_prefix:
  "\<exists>n. snd (snd (run_statements (logged db) stmts (w, l))) = l @ map ExecCall (take n stmts)"
proof (induction stmts arbitrary: w l)
  case Nil
  then show ?case by simp
next
  case (Cons stmt stmts)
  show ?case
  proof (cases "fst (Exec db stmt w)")
    case None
    from Cons.IH[of "snd (Exec db stmt w)" "l @ [ExecCall stmt]"] obtain n where
      "snd (snd (run_statements (logged db) stmts (snd (Exec db stmt w), l @ [ExecCall stmt]))) =
         (l @ [ExecCall stmt]) @ map ExecCall (take n stmts)"
      by blast
    with None have "snd (snd (run_statements (logged db) (stmt # stmts) (w, l))) =
        l @ map ExecCall (take (Suc n) (stmt # stmts))"
      by (simp add: Exec_logged)
    then show ?thesis by blast
  next
    case (Some err)
    then have "snd (snd (run_statements (logged db) (stmt # stmts) (w, l))) =
        l @ map ExecCall (take (Suc 0) (stmt # stmts))"
      by (simp add: Exec_logged)
    then show ?thesis by blast
  qed
qed

lemma run_statements_logged:
  "run_statements (logged db) stmts (w, l) =
     (fst (run_statements db stmts w),
      (snd (run_statements db stmts w), snd (snd (run_statements (logged db) stmts (w, l)))))"
  by (induction stmts arbitrary: w l) (auto simp: Exec_logged split: prod.splits option.splits)

lemma Split_append_sep: "Split (a @ sep # b) sep = Split a sep @ Split b sep"
  by (induction a) (simp_all add: Split_Nil Split_Cons Split_not_Nil)

lemma statements_append_semicolon:
  "statements (a @ CHR '';'' # b) = statements a @ statements b"
  by (simp add: statements_def Split_append_sep)

lemma Split_blank:
  "set xs \<subseteq> set whitespace \<union> {[sep]} \<Longrightarrow> sep = CHR '';'' \<Longrightarrow> f \<in> set (Split (concat xs) sep) \<Longrightarrow>
   \<exists>ys. set ys \<subseteq> set whitespace \<and> f = concat ys"
proof (induction xs arbitrary: f)
  case Nil
  then have "set [] \<subseteq> set whitespace \<and> f = concat []" by (simp add: Split_Nil)
  then show ?case by blast
next
  case (Cons x xs)
  from Cons.prems have xs: "set xs \<subseteq> set whitespace \<union> {[sep]}" by simp
  have ne: "Split (concat xs) sep \<noteq> []" by (rule Split_not_Nil)
  show ?case
  proof (cases "x = [sep]")
    case True
    with Cons.prems(3) have "f = [] \<or> f \<in> set (Split (concat xs) sep)"
      by (simp add: Split_Cons)
    then show ?thesis
    proof
      assume "f = []"
      then have "set [] \<subseteq> set whitespace \<and> f = concat []" by simp
      then show ?thesis by blast
    next
      assume "f \<in> set (Split (concat xs) sep)"
      with Cons.IH[OF xs Cons.prems(2)] show ?thesis by blast
    qed
  next
    case False
    with Cons.prems(1) have x: "x \<in> set whitespace" by auto
    with Cons.prems(2) have "sep \<notin> set x" by (auto dest: whitespace_no_semicolon)
    with Cons.prems(3) have "f = x @ hd (Split (concat xs) sep) \<or> f \<in> set (tl (Split (concat xs) sep))"
      by (simp add: Split_append_left)
    then show ?thesis
    proof
      assume f: "f = x @ hd (Split (concat xs) sep)"
      from ne have "hd (Split (concat xs) sep) \<in> set (Split (concat xs) sep)" by simp
      with Cons.IH[OF xs Cons.prems(2)] obtain ys where
        "set ys \<subseteq> set whitespace" "hd (Split (concat xs) sep) = concat ys" by blast
      with f x have "set (x # ys) \<subseteq> set whitespace \<and> f = concat (x # ys)" by simp
      then show ?thesis by blast
    next
      assume "f \<in> set (tl (Split (concat xs) sep))"
      with ne have "f \<in> set (Split (concat xs) sep)" by (auto dest: list.set_sel(2))
      with Cons.IH[OF xs Cons.prems(2)] show ?thesis by blast
    qed
  qed
qed

lemma statements_blank:
  assumes "set xs \<subseteq> set whitespace \<union> {'';''}"
  shows "statements (concat xs) = []"
proof -
  have "\<forall>f\<in>set (Split (concat xs) CHR '';''). TrimSpace f = []"
    using Split_blank[OF assms] TrimSpace_concat by blast
  then show ?thesis by (simp add: statements_def filter_empty_conv)
qed

lemma set_TrimSpace: "set (TrimSpace s) \<subseteq> set s"
proof -
  obtain ps qs where "s = concat ps @ TrimSpace s @ concat qs"
    using TrimSpace_decomp by blast
  then have "set s = set (concat ps) \<union> set (TrimSpace s) \<union> set (concat qs)"
    by (metis set_append Un_assoc)
  then show ?thesis by blast
qed

lemma leading_space_TrimSpace: "leading_space (TrimSpace s) = None"
proof -
  obtain qs where "TrimLeft s = TrimSpace s @ concat qs"
    using TrimRight_decomp[of "TrimLeft s"] by (auto simp: TrimSpace_def)
  then have "prefix (TrimSpace s) (TrimLeft s)" by (metis prefixI)
  moreover have "\<forall>w\<in>set whitespace. \<not> prefix w (TrimLeft s)"
    using leading_space_TrimLeft[of s] by (simp add: leading_space_None)
  ultimately show ?thesis
    by (auto simp: leading_space_None dest: prefix_order.trans)
qed

lemma trailing_space_TrimSpace: "trailing_space (TrimSpace s) = None"
  by (simp add: TrimSpace_def trailing_space_TrimRight)

lemma statements_shape:
  assumes "stmt \<in> set (statements script)"
  shows "stmt \<noteq> [] \<and> \<not> has_leading_space stmt \<and> \<not> has_trailing_space stmt \<and> CHR '';'' \<notin> set stmt"
proof -
  from assms obtain f where f: "f \<in> set (Split script CHR '';'')" "stmt = TrimSpace f" "stmt \<noteq> []"
    by (auto simp: statements_def)
  from f(1) have "CHR '';'' \<notin> set f" by (rule Split_fragment_no_sep)
  with f(2) set_TrimSpace[of f] have "CHR '';'' \<notin> set stmt" by blast
  moreover from f(2) have "\<not> has_leading_space stmt"
    using leading_space_TrimSpace[of f]
    by (simp add: has_leading_space_def leading_space_None list_ex_iff)
  moreover from f(2) have "\<not> has_trailing_space stmt"
    using trailing_space_TrimSpace[of f]
    by (simp add: has_trailing_space_def trailing_space_None list_ex_iff)
  ultimately show ?thesis using f(3) by simp
qed

text \<open>Logging changes neither what the program returns nor what it does to the world.\<close>

lemma ExecuteScript_logged:
  "ExecuteScript (logged db) script (w, l) =
     (fst (ExecuteScript db script w),
      (snd (ExecuteScript db script w), snd (snd (ExecuteScript (logged db) script (w, l)))))"
  using run_statements_logged[of db "statements script" w l]
  by (simp add: ExecuteScript_run)

lemma Connect_logged:
  "Connect (logged_Open sql_Open) driver dsn (w, l) =
     ((map_option logged (fst (fst (Connect sql_Open driver dsn w))),
       snd (fst (Connect sql_Open driver dsn w))),
      (snd (Connect sql_Open driver dsn w),
       snd (snd (Connect (logged_Open sql_Open) driver dsn (w, l)))))"
  by (auto simp: Connect_def logged_Open_def logged_def log_call_def
      split: prod.splits sum.splits option.splits)

section \<open>The claims\<close>

text \<open>
  C1, as the code has it. The statements that reach the driver are always the first
  \<open>n\<close> of \<open>statements script\<close> for some \<open>n\<close>, in that order; when every statement
  succeeds they are all of \<open>statements script\<close>, the script split on every \<open>;\<close>, each
  fragment trimmed, the empty ones removed. The split is lexical: a \<open>;\<close> anywhere in
  the script, whatever is written around it, ends one run of statements and starts
  the next.
\<close>

theorem C1_issued_statements:
  "(\<exists>n. snd (snd (ExecuteScript (logged db) script (w, []))) =
          map ExecCall (take n (statements script))) \<and>
   (all_succeed db (statements script) w \<longrightarrow>
      ExecuteScript (logged db) script (w, []) =
        (None, (apply_statements db (statements script) w, map ExecCall (statements script)))) \<and>
   statements (a @ CHR '';'' # b) = statements a @ statements b"
proof (intro conjI impI)
  show "\<exists>n. snd (snd (ExecuteScript (logged db) script (w, []))) =
          map ExecCall (take n (statements script))"
    using run_statements_logged_prefix[of db "statements script" w "[]"]
    by (simp add: ExecuteScript_run)
next
  assume "all_succeed db (statements script) w"
  then have "all_succeed (logged db) (statements script) (w, [])"
    by (simp add: all_succeed_logged)
  then show "ExecuteScript (logged db) script (w, []) =
      (None, (apply_statements db (statements script) w, map ExecCall (statements script)))"
    by (simp add: ExecuteScript_run run_statements_all_succeed apply_statements_logged)
next
  show "statements (a @ CHR '';'' # b) = statements a @ statements b"
    by (rule statements_append_semicolon)
qed

theorem C1_issued_statements_witness:
  "all_succeed sample_db (statements '' a ;; b; '') [] \<and>
   ExecuteScript (logged sample_db) '' a ;; b; '' ([], []) =
     (None, ([''a'', ''b''], [ExecCall ''a'', ExecCall ''b'']))"
proof -
  have s: "statements '' a ;; b; '' = [''a'', ''b'']" by code_simp
  have ok: "all_succeed sample_db (statements '' a ;; b; '') []"
    by (simp add: s sample_db_def)
  have "apply_statements sample_db [''a'', ''b''] [] = [''a'', ''b'']"
    by (simp add: sample_db_def)
  with ok C1_issued_statements[of sample_db "'' a ;; b; ''" "[]"] show ?thesis
    by (simp add: s)
qed

text \<open>
  C1, as it is written, fails when a statement fails: of the script \<open>bad; b\<close> only
  \<open>bad\<close> reaches a database that rejects it, not \<open>bad\<close> and \<open>b\<close>.
\<close>

theorem C1_counterexample:
  "snd (snd (ExecuteScript (logged sample_db) ''bad; b'' ([], []))) \<noteq>
     map ExecCall (statements ''bad; b'')"
proof -
  have "snd (snd (ExecuteScript (logged sample_db) ''bad; b'' ([], []))) = [ExecCall ''bad'']"
    by code_simp
  moreover have "statements ''bad; b'' = [''bad'', ''b'']" by code_simp
  ultimately show ?thesis by simp
qed

text \<open>
  C2. If statements 1..k-1 of the script succeed and statement k fails with the driver
  error \<open>err\<close>, then exactly statements 1..k reach the driver, none after the k-th, and
  \<open>ExecuteScript\<close> returns an error that wraps \<open>err\<close>.
\<close>

theorem C2_stop_at_first_failure:
  assumes "1 \<le> k" and "k \<le> length (statements script)"
    and "all_succeed db (take (k - 1) (statements script)) w"
    and "Exec db (statements script ! (k - 1))
           (apply_statements db (take (k - 1) (statements script)) w) = (Some err, w')"
  shows "ExecuteScript (logged db) script (w, []) =
           (Some (WrapError (''failed to execute statement: '' @ Error err) err),
            (w', map ExecCall (take k (statements script)))) \<and>
         Unwrap (WrapError (''failed to execute statement: '' @ Error err) err) = Some err"
proof -
  let ?ss = "statements script"
  from assms(1,2) have k: "k - 1 < length ?ss" by simp
  have ok: "all_succeed (logged db) (take (k - 1) ?ss) (w, [])"
    using assms(3) by (simp add: all_succeed_logged)
  have ex: "Exec (logged db) (?ss ! (k - 1)) (apply_statements (logged db) (take (k - 1) ?ss) (w, [])) =
      (Some err, (w', map ExecCall (take (k - 1) ?ss) @ [ExecCall (?ss ! (k - 1))]))"
    using assms(4) by (simp add: apply_statements_logged Exec_logged)
  from k have "take k ?ss = take (k - 1) ?ss @ [?ss ! (k - 1)]"
    using assms(1) take_Suc_conv_app_nth[of "k - 1" ?ss] by simp
  with run_statements_fails[OF k ok ex] show ?thesis
    by (simp add: ExecuteScript_run)
qed

theorem C2_stop_at_first_failure_witness:
  "ExecuteScript (logged sample_db) ''a; bad; c'' ([], []) =
     (Some (WrapError ''failed to execute statement: syntax error'' (ErrorString ''syntax error'')),
      ([''a''], [ExecCall ''a'', ExecCall ''bad'']))"
proof -
  have s: "statements ''a; bad; c'' = [''a'', ''bad'', ''c'']" by code_simp
  have "ExecuteScript (logged sample_db) ''a; bad; c'' ([], []) =
      (Some (WrapError (''failed to execute statement: '' @ Error (ErrorString ''syntax error''))
         (ErrorString ''syntax error'')),
       ([''a''], map ExecCall (take 2 (statements ''a; bad; c'')))) \<and>
     Unwrap (WrapError (''failed to execute statement: '' @ Error (ErrorString ''syntax error''))
         (ErrorString ''syntax error'')) = Some (ErrorString ''syntax error'')"
    by (rule C2_stop_at_first_failure) (simp_all add: s sample_db_def)
  then show ?thesis by (simp add: s)
qed

text \<open>
  C3. A script made only of white-space characters and \<open>;\<close> characters, the empty
  script among them, succeeds: no call reaches the driver and the world is as it was.
\<close>

theorem C3_blank_script:
  assumes "set xs \<subseteq> set whitespace \<union> {'';''}"
  shows "ExecuteScript (logged db) (concat xs) (w, []) = (None, (w, []))"
  using statements_blank[OF assms] by (simp add: ExecuteScript_run)

theorem C3_blank_script_witness:
  "ExecuteScript (logged sample_db) '';;;  ;'' ([], []) = (None, ([], [])) \<and>
   ExecuteScript (logged sample_db) [] ([], []) = (None, ([], []))"
  using C3_blank_script[of "['';'', '';'', '';'', '' '', '' '', '';'']" sample_db "[]"]
    C3_blank_script[of "[]" sample_db "[]"]
  by (simp add: whitespace_def)




text \<open>
  C5. When \<open>sql.Open\<close> returns a handle and its \<open>Ping\<close> fails, \<open>Connect\<close> calls \<open>Close\<close>
  on the handle and only then returns: no handle, and an error whose wrapped cause
  is the ping error and whose message contains the ping error's message; if \<open>Close\<close>
  fails too, the message contains the close error's message as well.
\<close>

theorem C5_ping_failure_closes:
  assumes "dsn \<noteq> []"
    and "sql_Open driver dsn w = (Inr db, w1)"
    and "Ping db w1 = (Some pingErr, w2)"
    and "Close db w2 = (closeRes, w3)"
  shows "\<exists>err. Connect (logged_Open sql_Open) driver dsn (w, []) =
           ((None, Some err), (w3, [OpenCall driver dsn, PingCall, CloseCall])) \<and>
         Unwrap err = Some pingErr \<and>
         sublist (Error pingErr) (Error err) \<and>
         (case closeRes of None \<Rightarrow> err = WrapError (''failed to ping database: '' @ Error pingErr) pingErr
          | Some closeErr \<Rightarrow> sublist (Error closeErr) (Error err))"
proof (cases closeRes)
  case None
  let ?err = "WrapError (''failed to ping database: '' @ Error pingErr) pingErr"
  from assms None have "Connect (logged_Open sql_Open) driver dsn (w, []) =
      ((None, Some ?err), (w3, [OpenCall driver dsn, PingCall, CloseCall]))"
    by (simp add: Connect_def logged_Open_def logged_def log_call_def)
  moreover have "sublist (Error pingErr) (Error ?err)"
    using sublist_appendI[of "Error pingErr" "''failed to ping database: ''" "[]"] by simp
  ultimately show ?thesis using None by simp
next
  case (Some closeErr)
  let ?err = "WrapError (''failed to ping database: '' @ Error pingErr @
                '' (close error: '' @ Error closeErr @ '')'') pingErr"
  from assms Some have "Connect (logged_Open sql_Open) driver dsn (w, []) =
      ((None, Some ?err), (w3, [OpenCall driver dsn, PingCall, CloseCall]))"
    by (simp add: Connect_def logged_Open_def logged_def log_call_def)
  moreover have "sublist (Error pingErr) (Error ?err)"
    using sublist_appendI[of "Error pingErr" "''failed to ping database: ''"
        "'' (close error: '' @ Error closeErr @ '')''"] by simp
  moreover have "sublist (Error closeErr) (Error ?err)"
    using sublist_appendI[of "Error closeErr"
        "''failed to ping database: '' @ Error pingErr @ '' (close error: ''" "'')''"] by simp
  ultimately show ?thesis using Some by simp
qed

theorem C5_ping_failure_closes_witness:
  "Connect (logged_Open sample_Open) ''stuck'' ''host=db'' ([], []) =
     ((None, Some (WrapError
        ''failed to ping database: connection refused (close error: close failed)''
        (ErrorString ''connection refused''))),
      ([], [OpenCall ''stuck'' ''host=db'', PingCall, CloseCall])) \<and>
   sublist ''close failed''
     ''failed to ping database: connection refused (close error: close failed)''"
proof -
  have "''host=db'' \<noteq> []" and "sample_Open ''stuck'' ''host=db'' [] = (Inr stuck_db, [])"
    and "Ping stuck_db [] = (Some (ErrorString ''connection refused''), [])"
    and "Close stuck_db [] = (Some (ErrorString ''close failed''), [])"
    by (simp_all add: sample_Open_def stuck_db_def)
  from C5_ping_failure_closes[of "''host=db''" sample_Open "''stuck''" "[]" stuck_db "[]"
      "ErrorString ''connection refused''" "[]" "Some (ErrorString ''close failed'')" "[]", OF this]
  obtain err where
    c: "Connect (logged_Open sample_Open) ''stuck'' ''host=db'' ([], []) =
         ((None, Some err), ([], [OpenCall ''stuck'' ''host=db'', PingCall, CloseCall]))"
    and s: "sublist (Error (ErrorString ''close failed'')) (Error err)"
    by auto
  have "Connect (logged_Open sample_Open) ''stuck'' ''host=db'' ([], []) =
     ((None, Some (WrapError
        ''failed to ping database: connection refused (close error: close failed)''
        (ErrorString ''connection refused''))),
      ([], [OpenCall ''stuck'' ''host=db'', PingCall, CloseCall]))"
    by (simp add: Connect_def logged_Open_def logged_def log_call_def sample_Open_def stuck_db_def)
  with c s show ?thesis by auto
qed

text \<open>
  C6. With an empty connection string \<open>Connect\<close> returns no handle and the error
  \<open>DSN cannot be empty\<close>, whatever the driver name and whatever \<open>sql.Open\<close> would do:
  the world is untouched and no call is made, \<open>sql.Open\<close> included.
\<close>

theorem C6_empty_dsn:
  "Connect sql_Open driver [] w = ((None, Some (ErrorString ''DSN cannot be empty'')), w) \<and>
   Connect (logged_Open sql_Open) driver [] (w, []) =
     ((None, Some (ErrorString ''DSN cannot be empty'')), (w, [])) \<and>
   Unwrap (ErrorString ''DSN cannot be empty'') = None"
  by (simp add: Connect_def)

text \<open>
  C7. With an empty path \<open>LoadScript\<close> returns the error \<open>script path cannot be empty\<close>
  without reading anything. For a path that is not empty and cannot be read it
  returns another error, with another message, that wraps the error of the read.
\<close>

theorem C7_empty_path:
  "LoadScript ReadFile [] = ([], Some (ErrorString ''script path cannot be empty'')) \<and>
   (path \<noteq> [] \<and> ReadFile path = Inl err \<longrightarrow>
      LoadScript ReadFile path =
        ([], Some (WrapError (''failed to read script file: '' @ Error err) err)) \<and>
      Option.bind (snd (LoadScript ReadFile path)) Unwrap = Some err \<and>
      Option.bind (snd (LoadScript ReadFile [])) Unwrap = None \<and>
      snd (LoadScript ReadFile path) \<noteq> snd (LoadScript ReadFile []) \<and>
      map_option Error (snd (LoadScript ReadFile path)) \<noteq>
        map_option Error (snd (LoadScript ReadFile [])))"
  by (simp add: LoadScript_def)

theorem C7_empty_path_witness:
  "LoadScript sample_ReadFile [] = ([], Some (ErrorString ''script path cannot be empty'')) \<and>
   LoadScript sample_ReadFile ''missing.sql'' =
     ([], Some (WrapError ''failed to read script file: no such file or directory''
                  (ErrorString ''no such file or directory'')))"
  using C7_empty_path[of sample_ReadFile "''missing.sql''" "ErrorString ''no such file or directory''"]
  by (simp add: sample_ReadFile_def)

text \<open>
  C8. For a path that is not empty and names a file that can be read, \<open>LoadScript\<close>
  returns the bytes of the file as they are, and no error.
\<close>

theorem C8_content_unmodified:
  "path \<noteq> [] \<Longrightarrow> ReadFile path = Inr content \<Longrightarrow> LoadScript ReadFile path = (content, None)"
  by (simp add: LoadScript_def)

theorem C8_content_unmodified_witness:
  "LoadScript sample_ReadFile ''valid.sql'' = (''  SELECT 1;  '', None)"
  using C8_content_unmodified[of "''valid.sql''" sample_ReadFile "''  SELECT 1;  ''"]
  by (simp add: sample_ReadFile_def)

text \<open>
  C9. Every call \<open>ExecuteScript\<close> makes on the handle is an \<open>Exec\<close> of a statement that
  is not empty, neither starts nor ends with a white-space character, and contains
  no \<open>;\<close>.
\<close>

theorem C9_issued_statement_shape:
  assumes "c \<in> set (snd (snd (ExecuteScript (logged db) script (w, []))))"
  shows "\<exists>stmt. c = ExecCall stmt \<and> stmt \<noteq> [] \<and> \<not> has_leading_space stmt \<and>
           \<not> has_trailing_space stmt \<and> CHR '';'' \<notin> set stmt"
proof -
  obtain n where "snd (snd (ExecuteScript (logged db) script (w, []))) =
      map ExecCall (take n (statements script))"
    using run_statements_logged_prefix[of db "statements script" w "[]"]
    by (auto simp: ExecuteScript_run)
  with assms obtain stmt where "c = ExecCall stmt" "stmt \<in> set (take n (statements script))"
    by auto
  then have "c = ExecCall stmt" "stmt \<in> set (statements script)"
    by (auto dest: in_set_takeD)
  with statements_shape[of stmt script] show ?thesis by blast
qed

theorem C9_issued_statement_shape_witness:
  "ExecCall ''a b'' \<in> set (snd (snd (ExecuteScript (logged sample_db) ''  a b ; c'' ([], [])))) \<and>
   \<not> has_leading_space ''a b'' \<and> \<not> has_trailing_space ''a b'' \<and> CHR '';'' \<notin> set ''a b''"
proof -
  have m: "ExecCall ''a b'' \<in> set (snd (snd (ExecuteScript (logged sample_db) ''  a b ; c'' ([], []))))"
    by code_simp
  from C9_issued_statement_shape[OF m] m show ?thesis by auto
qed

text \<open>
  C10. \<open>Connect\<close> returns either no handle and an error, or a handle and no error; in
  the second case the handle is the one \<open>sql.Open\<close> returned and its \<open>Ping\<close> succeeded.
\<close>

theorem C10_handle_xor_error:
  "(\<exists>err w'. Connect sql_Open driver dsn w = ((None, Some err), w')) \<or>
   (\<exists>db w1 w'. Connect sql_Open driver dsn w = ((Some db, None), w') \<and>
      sql_Open driver dsn w = (Inr db, w1) \<and> Ping db w1 = (None, w'))"
  by (auto simp: Connect_def split: prod.splits sum.splits option.splits)

end
